theory Spec2Isabelle
  imports Main "HOL-Library.Word"
begin

section \<open>ConfidentialFundraiser: data model\<close>

text \<open>
  A shallow embedding of \<^verbatim>\<open>contracts/ConfidentialFundraiser.sol\<close>. Solidity value
  types are machine words: \<^verbatim>\<open>uint256\<close>, \<^verbatim>\<open>address\<close> (160 bits) and the plaintext
  behind an \<^verbatim>\<open>euint128\<close>. A revert is a value \<open>Inl err\<close>; a call that returns
  normally yields \<open>Inr\<close> of the new contract state.
\<close>

type_synonym uint256 = "256 word"
type_synonym uint128 = "128 word"
type_synonym address = "160 word"

text \<open>
  An \<^verbatim>\<open>euint128\<close> is an opaque 32-byte handle; the all-zero handle is the
  uninitialised value every storage slot and mapping entry starts with.
\<close>

type_synonym euint128 = nat

record Campaign =
  name :: string
  targetAmount :: uint256
  endTimestamp :: uint256
  fundraiser :: address
  isActive :: bool

datatype event =
    CampaignCreated string uint256 uint256 address
  | ContributionReceived address uint256
  | CampaignEnded address uint256 uint256

datatype error =
    CampaignAlreadyCreated
  | CampaignInactive
  | CampaignAlreadyEnded
  | InvalidCampaignConfig
  | Unauthorized
  | ZeroContribution
  | WithdrawalFailed
  | InvalidInputProof   \<comment> \<open>\<^verbatim>\<open>FHE.fromExternal\<close> reverts: the proof does not validate\<close>
  | ArithmeticOverflow  \<comment> \<open>Solidity 0.8 checked arithmetic: \<^verbatim>\<open>Panic(0x11)\<close>\<close>

subsection \<open>The encrypted-value primitive\<close>

text \<open>
  Modelled from the spec: the library \<^verbatim>\<open>@fhevm/solidity/lib/FHE.sol\<close> that the
  contract imports is not part of the sources. The spec describes it as a black box
  of opaque encrypted 128-bit unsigned integers with homomorphic add, integer
  division by a public constant, attestation-verified ingestion of an external
  ciphertext (which may fail) and an append-only permission table from
  (value identity, principal) to a flag. The model keeps, for every handle, the
  plaintext its ciphertext encrypts; every operation yields a value with a new
  identity; add and divide cannot fail, so 128-bit addition wraps around.
\<close>

record fhevm =
  plaintexts :: "euint128 \<Rightarrow> uint128"
  fresh :: euint128
  grants :: "(euint128 \<times> address) set"

text \<open>Modelled from the spec: the plaintext behind a handle; an uninitialised handle
  stands for an encrypted zero.\<close>

definition FHE_plain :: "fhevm \<Rightarrow> euint128 \<Rightarrow> uint128" where
  "FHE_plain k h = (if h = 0 then 0 else plaintexts k h)"

text \<open>Modelled from the spec: a new encrypted value with the given plaintext.\<close>

definition FHE_new :: "uint128 \<Rightarrow> fhevm \<Rightarrow> euint128 \<times> fhevm" where
  "FHE_new v k =
     (Suc (fresh k),
      k\<lparr>plaintexts := (plaintexts k)(Suc (fresh k) := v), fresh := Suc (fresh k)\<rparr>)"

text \<open>Modelled from the spec: \<^verbatim>\<open>add(cipher, cipher) \<rightarrow> cipher\<close>.\<close>

definition FHE_add :: "euint128 \<Rightarrow> euint128 \<Rightarrow> fhevm \<Rightarrow> euint128 \<times> fhevm" where
  "FHE_add a b k = FHE_new (FHE_plain k a + FHE_plain k b) k"

text \<open>Modelled from the spec: \<^verbatim>\<open>divFloorByConstant(cipher, const) \<rightarrow> cipher\<close>.\<close>

definition FHE_div :: "euint128 \<Rightarrow> uint128 \<Rightarrow> fhevm \<Rightarrow> euint128 \<times> fhevm" where
  "FHE_div a d k = FHE_new (FHE_plain k a div d) k"

text \<open>
  Modelled from the spec: an externally encrypted input is the ciphertext reference
  (known here by the plaintext it encrypts) and a proof that either validates
  against the caller and the contract or does not.
\<close>

datatype externalEuint128 = ExternalEuint128 uint128

datatype inputProof = ValidProof | ForgedProof

text \<open>Modelled from the spec: \<^verbatim>\<open>ingestExternal(handle, proof, context) \<rightarrow> cipher | fails\<close>.\<close>

fun FHE_fromExternal :: "externalEuint128 \<Rightarrow> inputProof \<Rightarrow> fhevm \<Rightarrow> (euint128 \<times> fhevm) option" where
  "FHE_fromExternal (ExternalEuint128 v) ValidProof k = Some (FHE_new v k)"
| "FHE_fromExternal (ExternalEuint128 v) ForgedProof k = None"

text \<open>Modelled from the spec: \<^verbatim>\<open>grantAccess(cipher, principal)\<close>; entries are only added.\<close>

definition FHE_allow :: "euint128 \<Rightarrow> address \<Rightarrow> fhevm \<Rightarrow> fhevm" where
  "FHE_allow h p k = k\<lparr>grants := insert (h, p) (grants k)\<rparr>"

subsection \<open>Contract storage and its environment\<close>

text \<open>
  The storage variables of the contract, followed by what the code reads and writes
  outside its storage: its own address, the ether it holds
  (\<^verbatim>\<open>address(this).balance\<close>), the encrypted-value runtime, the value transfers it
  has made and the event log. The contract has no \<^verbatim>\<open>receive\<close> or \<^verbatim>\<open>fallback\<close>
  function, so its balance changes only through \<^verbatim>\<open>contribute\<close> and \<^verbatim>\<open>endCampaign\<close>.
\<close>

record contract =
  campaign :: Campaign
  totalRaised :: uint256
  encryptedTotalRaised :: euint128
  encryptedTotalPoints :: euint128
  encryptedContributions :: "address \<Rightarrow> euint128"
  encryptedPoints :: "address \<Rightarrow> euint128"
  this :: address
  balance :: nat
  runtime :: fhevm
  transfers :: "(address \<times> nat) list"
  events :: "event list"

text \<open>What a transaction supplies besides the arguments of the function.\<close>

record msg =
  msg_sender :: address
  block_timestamp :: uint256

definition POINTS_DIVISOR :: uint128 where
  "POINTS_DIVISOR = 1000000000000"

text \<open>The state right after deployment at address \<open>a\<close>: all storage is zero.\<close>

definition deploy :: "address \<Rightarrow> contract" where
  "deploy a =
     \<lparr>campaign = \<lparr>name = [], targetAmount = 0, endTimestamp = 0, fundraiser = 0, isActive = False\<rparr>,
      totalRaised = 0,
      encryptedTotalRaised = 0,
      encryptedTotalPoints = 0,
      encryptedContributions = (\<lambda>_. 0),
      encryptedPoints = (\<lambda>_. 0),
      this = a,
      balance = 0,
      runtime = \<lparr>plaintexts = (\<lambda>_. 0), fresh = 0, grants = {}\<rparr>,
      transfers = [],
      events = []\<rparr>"

section \<open>The operations\<close>

definition createCampaign :: "string \<Rightarrow> uint256 \<Rightarrow> uint256 \<Rightarrow> msg \<Rightarrow> contract \<Rightarrow> error + contract" where
  "createCampaign nm target endTs m s =
     (if fundraiser (campaign s) \<noteq> 0 then Inl CampaignAlreadyCreated
      else if length nm = 0 \<or> target = 0 \<or> endTs \<le> block_timestamp m then Inl InvalidCampaignConfig
      else Inr (s\<lparr>campaign := \<lparr>name = nm, targetAmount = target, endTimestamp = endTs,
                                fundraiser = msg_sender m, isActive = True\<rparr>,
                  events := events s @ [CampaignCreated nm target endTs (msg_sender m)]\<rparr>))"

text \<open>
  \<^verbatim>\<open>contribute\<close> is payable: \<open>msg_value\<close> is the ether attached to the call, credited to
  the contract when the call returns normally. \<^verbatim>\<open>totalRaised += msg.value\<close> is checked
  arithmetic.
\<close>

definition contribute :: "externalEuint128 \<Rightarrow> inputProof \<Rightarrow> uint256 \<Rightarrow> msg \<Rightarrow> contract \<Rightarrow> error + contract" where
  "contribute encryptedAmount inputProof msg_value m s =
     (if \<not> isActive (campaign s) then Inl CampaignInactive
      else if block_timestamp m \<ge> endTimestamp (campaign s) then Inl CampaignAlreadyEnded
      else if msg_value = 0 then Inl ZeroContribution
      else case FHE_fromExternal encryptedAmount inputProof (runtime s) of
        None \<Rightarrow> Inl InvalidInputProof
      | Some (amount, k1) \<Rightarrow>
          let (updatedContribution, k2) = FHE_add (encryptedContributions s (msg_sender m)) amount k1;
              (contributionPoints, k3) = FHE_div amount POINTS_DIVISOR k2;
              (updatedPoints, k4) = FHE_add (encryptedPoints s (msg_sender m)) contributionPoints k3;
              (newTotalRaised, k5) = FHE_add (encryptedTotalRaised s) amount k4;
              (newTotalPoints, k6) = FHE_add (encryptedTotalPoints s) contributionPoints k5
          in if unat (totalRaised s) + unat msg_value \<ge> 2 ^ 256 then Inl ArithmeticOverflow
             else
               let k7 = FHE_allow updatedContribution (this s) k6;
                   k8 = FHE_allow updatedContribution (msg_sender m) k7;
                   k9 = FHE_allow updatedPoints (this s) k8;
                   k10 = FHE_allow updatedPoints (msg_sender m) k9;
                   k11 = FHE_allow newTotalRaised (this s) k10;
                   k12 = FHE_allow newTotalPoints (this s) k11;
                   k13 = (if fundraiser (campaign s) \<noteq> 0
                          then FHE_allow newTotalPoints (fundraiser (campaign s))
                                 (FHE_allow newTotalRaised (fundraiser (campaign s)) k12)
                          else k12)
               in Inr (s\<lparr>encryptedContributions :=
                            (encryptedContributions s)(msg_sender m := updatedContribution),
                          encryptedPoints := (encryptedPoints s)(msg_sender m := updatedPoints),
                          encryptedTotalRaised := newTotalRaised,
                          encryptedTotalPoints := newTotalPoints,
                          totalRaised := totalRaised s + msg_value,
                          balance := balance s + unat msg_value,
                          runtime := k13,
                          events := events s @ [ContributionReceived (msg_sender m) msg_value]\<rparr>))"

text \<open>
  \<^verbatim>\<open>endCampaign\<close> hands the whole balance to the fundraiser with a low-level call.
  Whether that call succeeds is decided by the recipient, not by this contract:
  \<open>call_success\<close> is its outcome.
\<close>

definition endCampaign :: "bool \<Rightarrow> msg \<Rightarrow> contract \<Rightarrow> error + contract" where
  "endCampaign call_success m s =
     (if msg_sender m \<noteq> fundraiser (campaign s) then Inl Unauthorized
      else if \<not> isActive (campaign s) then Inl CampaignInactive
      else if \<not> call_success then Inl WithdrawalFailed
      else Inr (s\<lparr>campaign := (campaign s)\<lparr>isActive := False\<rparr>,
                  balance := 0,
                  transfers := transfers s @ [(fundraiser (campaign s), balance s)],
                  events := events s @ [CampaignEnded (fundraiser (campaign s))
                                          (of_nat (balance s)) (block_timestamp m)]\<rparr>))"

text \<open>The view functions read storage and change nothing.\<close>

definition getCampaignInfo :: "contract \<Rightarrow> string \<times> uint256 \<times> uint256 \<times> address \<times> bool \<times> uint256" where
  "getCampaignInfo s =
     (name (campaign s), targetAmount (campaign s), endTimestamp (campaign s),
      fundraiser (campaign s), isActive (campaign s), totalRaised s)"

definition getEncryptedContribution :: "address \<Rightarrow> contract \<Rightarrow> euint128" where
  "getEncryptedContribution user s = encryptedContributions s user"

definition getEncryptedPoints :: "address \<Rightarrow> contract \<Rightarrow> euint128" where
  "getEncryptedPoints user s = encryptedPoints s user"

definition getEncryptedTotals :: "contract \<Rightarrow> euint128 \<times> euint128" where
  "getEncryptedTotals s = (encryptedTotalRaised s, encryptedTotalPoints s)"

subsection \<open>Transactions\<close>

text \<open>
  \<^verbatim>\<open>createCampaign\<close> and \<^verbatim>\<open>endCampaign\<close> are not payable, so only a call of
  \<^verbatim>\<open>contribute\<close> carries ether. A transaction that reverts leaves the state as it was.
\<close>

datatype call =
    CreateCampaign string uint256 uint256
  | Contribute externalEuint128 inputProof uint256
  | EndCampaign bool

fun exec :: "msg \<Rightarrow> call \<Rightarrow> contract \<Rightarrow> error + contract" where
  "exec m (CreateCampaign nm target endTs) s = createCampaign nm target endTs m s"
| "exec m (Contribute encryptedAmount inputProof msg_value) s =
     contribute encryptedAmount inputProof msg_value m s"
| "exec m (EndCampaign call_success) s = endCampaign call_success m s"

definition step :: "msg \<times> call \<Rightarrow> contract \<Rightarrow> contract" where
  "step tx s = (case exec (fst tx) (snd tx) s of Inl _ \<Rightarrow> s | Inr s' \<Rightarrow> s')"

fun run :: "(msg \<times> call) list \<Rightarrow> contract \<Rightarrow> contract" where
  "run [] s = s"
| "run (tx # txs) s = run txs (step tx s)"

subsection \<open>Traces\<close>

text \<open>
  What a sequence of transactions has contributed: one entry for every call of
  \<^verbatim>\<open>contribute\<close> that returned normally, with the caller, the plaintext of the
  ingested ciphertext and the ether attached.
\<close>

record accepted_contribution =
  contributor :: address
  amount :: uint128
  public_value :: uint256

fun accepted :: "(msg \<times> call) list \<Rightarrow> contract \<Rightarrow> accepted_contribution list" where
  "accepted [] s = []"
| "accepted ((m, c) # txs) s =
     (case exec m c s of
        Inl _ \<Rightarrow> accepted txs s
      | Inr s' \<Rightarrow>
          (case c of
             Contribute (ExternalEuint128 a) _ v \<Rightarrow>
               \<lparr>contributor = msg_sender m, amount = a, public_value = v\<rparr> # accepted txs s'
           | _ \<Rightarrow> accepted txs s'))"

text \<open>
  Every transaction is sent by an account; no transaction comes from the zero
  address, which the contract uses as "no fundraiser yet".
\<close>

definition from_accounts :: "(msg \<times> call) list \<Rightarrow> bool" where
  "from_accounts txs = list_all (\<lambda>tx. msg_sender (fst tx) \<noteq> 0) txs"

text \<open>
  The handles in storage and in the permission table were all issued by the runtime
  (the uninitialised handle apart), so a newly issued handle differs from each.
\<close>

definition handles_issued :: "contract \<Rightarrow> bool" where
  "handles_issued s \<longleftrightarrow>
     encryptedTotalRaised s \<le> fresh (runtime s) \<and>
     encryptedTotalPoints s \<le> fresh (runtime s) \<and>
     (\<forall>u. encryptedContributions s u \<le> fresh (runtime s)) \<and>
     (\<forall>u. encryptedPoints s u \<le> fresh (runtime s)) \<and>
     (\<forall>h p. (h, p) \<in> grants (runtime s) \<longrightarrow> 0 < h \<and> h \<le> fresh (runtime s))"

text \<open>
  The decrypted ledger: the plaintext behind each handle the view functions return
  (what a principal holding a grant would read).
\<close>

definition contribution_of :: "contract \<Rightarrow> address \<Rightarrow> uint128" where
  "contribution_of s u = FHE_plain (runtime s) (getEncryptedContribution u s)"

definition points_of :: "contract \<Rightarrow> address \<Rightarrow> uint128" where
  "points_of s u = FHE_plain (runtime s) (getEncryptedPoints u s)"

definition total_raised_of :: "contract \<Rightarrow> uint128" where
  "total_raised_of s = FHE_plain (runtime s) (fst (getEncryptedTotals s))"

definition total_points_of :: "contract \<Rightarrow> uint128" where
  "total_points_of s = FHE_plain (runtime s) (snd (getEncryptedTotals s))"



subsection \<open>A sample campaign\<close>

text \<open>
  The scenario of the repository's tests: the contract is deployed at address 1,
  account 7 creates the campaign "Rocket Launch", accounts 8 and 9 contribute and
  account 7 ends the campaign.
\<close>

definition creation :: "msg \<times> call" where
  "creation = (\<lparr>msg_sender = 7, block_timestamp = 100\<rparr>, CreateCampaign ''Rocket Launch'' 5 3600)"

definition contribution :: "address \<Rightarrow> uint128 \<Rightarrow> uint256 \<Rightarrow> msg \<times> call" where
  "contribution who a v =
     (\<lparr>msg_sender = who, block_timestamp = 200\<rparr>, Contribute (ExternalEuint128 a) ValidProof v)"

definition ending :: "msg \<times> call" where
  "ending = (\<lparr>msg_sender = 7, block_timestamp = 300\<rparr>, EndCampaign True)"

section \<open>Basic facts about the operations\<close>

lemma FHE_new_simps [simp]:
  "fst (FHE_new v k) = Suc (fresh k)"
  "fresh (snd (FHE_new v k)) = Suc (fresh k)"
  "grants (snd (FHE_new v k)) = grants k"
  "FHE_plain (snd (FHE_new v k)) h = (if h = Suc (fresh k) then v else FHE_plain k h)"
  by (simp_all add: FHE_new_def FHE_plain_def)

lemma FHE_add_simps [simp]:
  "fst (FHE_add a b k) = Suc (fresh k)"
  "fresh (snd (FHE_add a b k)) = Suc (fresh k)"
  "grants (snd (FHE_add a b k)) = grants k"
  "FHE_plain (snd (FHE_add a b k)) h =
     (if h = Suc (fresh k) then FHE_plain k a + FHE_plain k b else FHE_plain k h)"
  by (simp_all add: FHE_add_def)

lemma FHE_div_simps [simp]:
  "fst (FHE_div a d k) = Suc (fresh k)"
  "fresh (snd (FHE_div a d k)) = Suc (fresh k)"
  "grants (snd (FHE_div a d k)) = grants k"
  "FHE_plain (snd (FHE_div a d k)) h =
     (if h = Suc (fresh k) then FHE_plain k a div d else FHE_plain k h)"
  by (simp_all add: FHE_div_def)

lemma FHE_allow_simps [simp]:
  "fresh (FHE_allow h p k) = fresh k"
  "grants (FHE_allow h p k) = insert (h, p) (grants k)"
  "FHE_plain (FHE_allow h p k) h' = FHE_plain k h'"
  by (simp_all add: FHE_allow_def FHE_plain_def)

text \<open>When \<^verbatim>\<open>contribute\<close> returns normally, every check has passed.\<close>

lemma contribute_Inr:
  assumes "contribute x p v m s = Inr s'"
  shows "isActive (campaign s) \<and> block_timestamp m < endTimestamp (campaign s) \<and> v \<noteq> 0
     \<and> p = ValidProof \<and> unat (totalRaised s) + unat v < 2 ^ 256"
  using assms
  by (cases x; cases p) (simp_all add: contribute_def Let_def split_beta split: if_splits)

text \<open>The storage it leaves behind, field by field.\<close>

lemma contribute_fields:
  assumes "contribute x p v m s = Inr s'"
  shows "campaign s' = campaign s"
    and "totalRaised s' = totalRaised s + v"
    and "balance s' = balance s + unat v"
    and "this s' = this s"
    and "transfers s' = transfers s"
    and "events s' = events s @ [ContributionReceived (msg_sender m) v]"
  using assms
  by (cases x; cases p; simp add: contribute_def Let_def split_beta split: if_splits; auto)+

text \<open>Unfolding everything evaluates the operations on a concrete state.\<close>

lemmas evaluate =
  creation_def contribution_def ending_def step_def deploy_def createCampaign_def
  contribute_def endCampaign_def FHE_add_def FHE_div_def FHE_new_def FHE_allow_def
  FHE_plain_def POINTS_DIVISOR_def Let_def from_accounts_def contribution_of_def
  points_of_def total_raised_of_def total_points_of_def getEncryptedContribution_def
  getEncryptedPoints_def getEncryptedTotals_def

lemmas decrypted =
  contribution_of_def points_of_def total_raised_of_def total_points_of_def
  getEncryptedContribution_def getEncryptedPoints_def getEncryptedTotals_def

section \<open>Creating the campaign\<close>

text \<open>
  Claim C9. Called while no campaign exists (the fundraiser slot is still the zero
  address), \<^verbatim>\<open>createCampaign\<close> reverts with \<^verbatim>\<open>InvalidCampaignConfig\<close> exactly when the
  name is empty, the target is zero or the end timestamp is not strictly after the
  block timestamp. Otherwise it stores the whole campaign at once, with the caller
  as fundraiser and \<open>isActive\<close> set; a call that reverts leaves the state as it was,
  so no partly written campaign is ever visible.
\<close>

theorem createCampaign_uninitialized:
  assumes "fundraiser (campaign s) = 0"
  shows "(createCampaign nm target endTs m s = Inl InvalidCampaignConfig
            \<longleftrightarrow> nm = [] \<or> target = 0 \<or> endTs \<le> block_timestamp m)
       \<and> (\<not> (nm = [] \<or> target = 0 \<or> endTs \<le> block_timestamp m) \<longrightarrow>
            createCampaign nm target endTs m s =
              Inr (s\<lparr>campaign := \<lparr>name = nm, targetAmount = target, endTimestamp = endTs,
                                   fundraiser = msg_sender m, isActive = True\<rparr>,
                     events := events s @ [CampaignCreated nm target endTs (msg_sender m)]\<rparr>))
       \<and> (\<forall>err. createCampaign nm target endTs m s = Inl err \<longrightarrow>
            step (m, CreateCampaign nm target endTs) s = s)"
  using assms by (simp add: createCampaign_def step_def)

theorem createCampaign_uninitialized_witness:
  "fundraiser (campaign (deploy 1)) = 0
   \<and> createCampaign ''Rocket Launch'' 5 3600 \<lparr>msg_sender = 7, block_timestamp = 100\<rparr> (deploy 1) =
       Inr ((deploy 1)\<lparr>campaign := \<lparr>name = ''Rocket Launch'', targetAmount = 5, endTimestamp = 3600,
                                   fundraiser = 7, isActive = True\<rparr>,
                      events := [CampaignCreated ''Rocket Launch'' 5 3600 7]\<rparr>)
   \<and> createCampaign [] 5 3600 \<lparr>msg_sender = 7, block_timestamp = 100\<rparr> (deploy 1) =
       Inl InvalidCampaignConfig
   \<and> createCampaign ''Rocket Launch'' 5 100 \<lparr>msg_sender = 7, block_timestamp = 100\<rparr> (deploy 1) =
       Inl InvalidCampaignConfig
   \<and> step (\<lparr>msg_sender = 7, block_timestamp = 100\<rparr>, CreateCampaign ''Rocket Launch'' 5 100)
       (deploy 1) = deploy 1"
  using createCampaign_uninitialized [of "deploy 1" "''Rocket Launch''" 5 3600
      "\<lparr>msg_sender = 7, block_timestamp = 100\<rparr>"]
    createCampaign_uninitialized [of "deploy 1" "[]" 5 3600
      "\<lparr>msg_sender = 7, block_timestamp = 100\<rparr>"]
    createCampaign_uninitialized [of "deploy 1" "''Rocket Launch''" 5 100
      "\<lparr>msg_sender = 7, block_timestamp = 100\<rparr>"]
  by (simp add: deploy_def)

section \<open>Rejected contributions\<close>

text \<open>
  Claim C6. \<^verbatim>\<open>contribute\<close> checks, in this order, that the campaign is active (else
  \<^verbatim>\<open>CampaignInactive\<close>), that the block timestamp is strictly before the end timestamp
  (else \<^verbatim>\<open>CampaignAlreadyEnded\<close>) and that ether is attached (else
  \<^verbatim>\<open>ZeroContribution\<close>); then the ciphertext proof must validate. Whatever the reason
  of a failure, also a rejected proof, the transaction leaves the ledger, the
  settlement total, the balance and the permission table exactly as they were.
\<close>

theorem contribute_rejections:
  "(\<not> isActive (campaign s) \<longrightarrow> contribute x p v m s = Inl CampaignInactive)
   \<and> (isActive (campaign s) \<and> endTimestamp (campaign s) \<le> block_timestamp m \<longrightarrow>
        contribute x p v m s = Inl CampaignAlreadyEnded)
   \<and> (isActive (campaign s) \<and> block_timestamp m < endTimestamp (campaign s) \<and> v = 0 \<longrightarrow>
        contribute x p v m s = Inl ZeroContribution)
   \<and> (isActive (campaign s) \<and> block_timestamp m < endTimestamp (campaign s) \<and> v \<noteq> 0
        \<and> p = ForgedProof \<longrightarrow> contribute x p v m s = Inl InvalidInputProof)
   \<and> (\<forall>err. contribute x p v m s = Inl err \<longrightarrow> step (m, Contribute x p v) s = s)"
  by (cases x) (auto simp: contribute_def step_def)

theorem contribute_rejections_witness:
  "contribute (ExternalEuint128 2) ValidProof 1 \<lparr>msg_sender = 9, block_timestamp = 200\<rparr> (deploy 1)
     = Inl CampaignInactive
   \<and> contribute (ExternalEuint128 2) ValidProof 1 \<lparr>msg_sender = 9, block_timestamp = 3600\<rparr>
       (run [creation] (deploy 1)) = Inl CampaignAlreadyEnded
   \<and> contribute (ExternalEuint128 2) ValidProof 0 \<lparr>msg_sender = 9, block_timestamp = 200\<rparr>
       (run [creation] (deploy 1)) = Inl ZeroContribution
   \<and> contribute (ExternalEuint128 2) ForgedProof 1 \<lparr>msg_sender = 9, block_timestamp = 200\<rparr>
       (run [creation] (deploy 1)) = Inl InvalidInputProof
   \<and> step (\<lparr>msg_sender = 9, block_timestamp = 200\<rparr>, Contribute (ExternalEuint128 2) ForgedProof 1)
       (run [creation] (deploy 1)) = run [creation] (deploy 1)"
  using contribute_rejections [where s = "deploy 1" and x = "ExternalEuint128 2" and p = ValidProof
      and v = 1 and m = "\<lparr>msg_sender = 9, block_timestamp = 200\<rparr>"]
    contribute_rejections [where s = "run [creation] (deploy 1)" and x = "ExternalEuint128 2"
      and p = ValidProof and v = 1 and m = "\<lparr>msg_sender = 9, block_timestamp = 3600\<rparr>"]
    contribute_rejections [where s = "run [creation] (deploy 1)" and x = "ExternalEuint128 2"
      and p = ValidProof and v = 0 and m = "\<lparr>msg_sender = 9, block_timestamp = 200\<rparr>"]
    contribute_rejections [where s = "run [creation] (deploy 1)" and x = "ExternalEuint128 2"
      and p = ForgedProof and v = 1 and m = "\<lparr>msg_sender = 9, block_timestamp = 200\<rparr>"]
  by (simp add: evaluate)

section \<open>The lifecycle\<close>

text \<open>The fundraiser, once set, is never written again.\<close>

lemma exec_fundraiser:
  assumes "exec m c s = Inr s'" and "fundraiser (campaign s) \<noteq> 0"
  shows "fundraiser (campaign s') = fundraiser (campaign s)"
proof (cases c)
  case (CreateCampaign nm target endTs)
  with assms show ?thesis by (simp add: createCampaign_def)
next
  case (Contribute x p v)
  with assms show ?thesis by (simp add: contribute_fields(1))
next
  case (EndCampaign ok)
  with assms show ?thesis by (auto simp: endCampaign_def split: if_splits)
qed

lemma step_fundraiser:
  "fundraiser (campaign s) \<noteq> 0 \<Longrightarrow> fundraiser (campaign (step tx s)) = fundraiser (campaign s)"
  by (cases "exec (fst tx) (snd tx) s") (simp_all add: step_def exec_fundraiser)

lemma run_fundraiser:
  "fundraiser (campaign s) \<noteq> 0 \<Longrightarrow> fundraiser (campaign (run txs s)) = fundraiser (campaign s)"
  by (induction txs arbitrary: s) (simp_all add: step_fundraiser)

text \<open>
  Claim C4. Once a call of \<^verbatim>\<open>createCampaign\<close> by an account (not the zero address)
  has succeeded, every later call of \<^verbatim>\<open>createCampaign\<close>, after any sequence of
  transactions and with any arguments, reverts with \<^verbatim>\<open>CampaignAlreadyCreated\<close> and
  leaves the state, so every field of the campaign, as it was; the fundraiser stays
  the first creator.
\<close>

theorem createCampaign_once:
  assumes "createCampaign nm target endTs m s = Inr s1" and "msg_sender m \<noteq> 0"
  shows "createCampaign nm' target' endTs' m' (run txs s1) = Inl CampaignAlreadyCreated
       \<and> step (m', CreateCampaign nm' target' endTs') (run txs s1) = run txs s1
       \<and> fundraiser (campaign (run txs s1)) = msg_sender m"
proof -
  from assms have f1: "fundraiser (campaign s1) = msg_sender m"
    by (auto simp: createCampaign_def split: if_splits)
  with assms(2) have f: "fundraiser (campaign (run txs s1)) = msg_sender m"
    by (simp add: run_fundraiser)
  with assms(2) have "createCampaign nm' target' endTs' m' (run txs s1) = Inl CampaignAlreadyCreated"
    by (simp add: createCampaign_def)
  with f show ?thesis by (simp add: step_def)
qed

theorem createCampaign_once_witness:
  "createCampaign ''Rocket Launch'' 5 3600 \<lparr>msg_sender = 7, block_timestamp = 100\<rparr> (deploy 1)
     = Inr (run [creation] (deploy 1))
   \<and> createCampaign ''Second'' 1 9999 \<lparr>msg_sender = 8, block_timestamp = 400\<rparr>
        (run [contribution 9 2 1, ending] (run [creation] (deploy 1))) = Inl CampaignAlreadyCreated
   \<and> campaign (step (\<lparr>msg_sender = 8, block_timestamp = 400\<rparr>, CreateCampaign ''Second'' 1 9999)
        (run [contribution 9 2 1, ending] (run [creation] (deploy 1))))
      = \<lparr>name = ''Rocket Launch'', targetAmount = 5, endTimestamp = 3600, fundraiser = 7,
         isActive = False\<rparr>"
proof -
  have c: "createCampaign ''Rocket Launch'' 5 3600 \<lparr>msg_sender = 7, block_timestamp = 100\<rparr> (deploy 1)
     = Inr (run [creation] (deploy 1))"
    by (simp add: evaluate)
  have n: "msg_sender \<lparr>msg_sender = 7, block_timestamp = 100\<rparr> \<noteq> (0 :: address)"
    by simp
  have e: "campaign (run [contribution 9 2 1, ending] (run [creation] (deploy 1)))
      = \<lparr>name = ''Rocket Launch'', targetAmount = 5, endTimestamp = 3600, fundraiser = 7,
         isActive = False\<rparr>"
    by (simp add: evaluate)
  from createCampaign_once [OF c n, of "''Second''" 1 9999
      "\<lparr>msg_sender = 8, block_timestamp = 400\<rparr>" "[contribution 9 2 1, ending]"] c e
  show ?thesis by simp
qed

text \<open>Once ended, always ended.\<close>

lemma exec_ended:
  assumes "exec m c s = Inr s'" and "\<not> isActive (campaign s)" and "fundraiser (campaign s) \<noteq> 0"
  shows "\<not> isActive (campaign s') \<and> fundraiser (campaign s') \<noteq> 0"
proof (cases c)
  case (CreateCampaign nm target endTs)
  with assms show ?thesis by (simp add: createCampaign_def)
next
  case (Contribute x p v)
  with assms show ?thesis by (auto dest: contribute_Inr)
next
  case (EndCampaign ok)
  with assms show ?thesis by (auto simp: endCampaign_def split: if_splits)
qed

lemma step_ended:
  "\<not> isActive (campaign s) \<Longrightarrow> fundraiser (campaign s) \<noteq> 0 \<Longrightarrow>
   \<not> isActive (campaign (step tx s)) \<and> fundraiser (campaign (step tx s)) \<noteq> 0"
  by (cases "exec (fst tx) (snd tx) s") (auto simp: step_def dest: exec_ended)

lemma run_ended:
  "\<not> isActive (campaign s) \<Longrightarrow> fundraiser (campaign s) \<noteq> 0 \<Longrightarrow>
   \<not> isActive (campaign (run txs s))"
proof (induction txs arbitrary: s)
  case Nil
  then show ?case by simp
next
  case (Cons tx txs)
  from step_ended [OF Cons.prems, of tx] show ?case by (simp add: Cons.IH)
qed

text \<open>
  Claim C10. In every state reached after a successful \<^verbatim>\<open>endCampaign\<close>, whatever
  transactions follow, \<^verbatim>\<open>contribute\<close> reverts with \<^verbatim>\<open>CampaignInactive\<close>, never with
  \<^verbatim>\<open>CampaignAlreadyEnded\<close>, whether or not the block timestamp is past the end
  timestamp: the \<open>isActive\<close> check comes first, and an ended campaign cannot be
  created again.
\<close>

theorem contribute_after_end:
  assumes "endCampaign call_success m s = Inr s1" and "msg_sender m \<noteq> 0"
  shows "contribute x p v m' (run txs s1) = Inl CampaignInactive"
proof -
  from assms have "\<not> isActive (campaign s1)" and "fundraiser (campaign s1) \<noteq> 0"
    by (auto simp: endCampaign_def split: if_splits)
  then have "\<not> isActive (campaign (run txs s1))" by (rule run_ended)
  then show ?thesis by (simp add: contribute_def)
qed

theorem contribute_after_end_witness:
  "endCampaign True \<lparr>msg_sender = 7, block_timestamp = 300\<rparr> (run [creation, contribution 9 2 1] (deploy 1))
     = Inr (run [creation, contribution 9 2 1, ending] (deploy 1))
   \<and> contribute (ExternalEuint128 2) ValidProof 1 \<lparr>msg_sender = 9, block_timestamp = 400\<rparr>
        (run [creation, contribution 9 2 1, ending] (deploy 1)) = Inl CampaignInactive
   \<and> contribute (ExternalEuint128 2) ValidProof 1 \<lparr>msg_sender = 9, block_timestamp = 4000\<rparr>
        (run [creation, contribution 9 2 1, ending] (deploy 1)) = Inl CampaignInactive"
proof -
  have c: "endCampaign True \<lparr>msg_sender = 7, block_timestamp = 300\<rparr>
       (run [creation, contribution 9 2 1] (deploy 1))
     = Inr (run [creation, contribution 9 2 1, ending] (deploy 1))"
    by (simp add: evaluate)
  have n: "msg_sender \<lparr>msg_sender = 7, block_timestamp = 300\<rparr> \<noteq> (0 :: address)"
    by simp
  from contribute_after_end [OF c n, of "ExternalEuint128 2" ValidProof 1
      "\<lparr>msg_sender = 9, block_timestamp = 400\<rparr>" "[]"]
   contribute_after_end [OF c n, of "ExternalEuint128 2" ValidProof 1
      "\<lparr>msg_sender = 9, block_timestamp = 4000\<rparr>" "[]"] c
  show ?thesis by simp
qed

section \<open>Ending the campaign\<close>




text \<open>
  While the transfer is in flight \<open>isActive\<close> is already cleared. A recipient that
  calls back into the contract then finds every operation reverting, so it cannot
  change the state: the transfer is one step of the model.
\<close>

lemma endCampaign_reentry_reverts:
  assumes "fundraiser (campaign s) \<noteq> 0"
  shows "\<exists>err. exec m c (s\<lparr>campaign := (campaign s)\<lparr>isActive := False\<rparr>\<rparr>) = Inl err"
  using assms
  by (cases c) (simp_all add: createCampaign_def contribute_def endCampaign_def)



section \<open>The encrypted ledger\<close>

text \<open>
  The ledger after an accepted contribution. The five homomorphic operations issue
  five new handles after the ingested one; the caller's two slots and the two totals
  take four of them, and each decrypts to the old plaintext plus the amount (or the
  amount divided by \<open>POINTS_DIVISOR\<close>).
\<close>

lemma contribute_ledger:
  assumes c: "contribute (ExternalEuint128 a) p v m s = Inr s'"
    and cu: "encryptedContributions s (msg_sender m) \<le> fresh (runtime s)"
    and pu: "encryptedPoints s (msg_sender m) \<le> fresh (runtime s)"
    and tr: "encryptedTotalRaised s \<le> fresh (runtime s)"
    and tp: "encryptedTotalPoints s \<le> fresh (runtime s)"
  shows "FHE_plain (runtime s') (encryptedContributions s' (msg_sender m)) =
           FHE_plain (runtime s) (encryptedContributions s (msg_sender m)) + a"
    and "FHE_plain (runtime s') (encryptedPoints s' (msg_sender m)) =
           FHE_plain (runtime s) (encryptedPoints s (msg_sender m)) + a div POINTS_DIVISOR"
    and "FHE_plain (runtime s') (encryptedTotalRaised s') =
           FHE_plain (runtime s) (encryptedTotalRaised s) + a"
    and "FHE_plain (runtime s') (encryptedTotalPoints s') =
           FHE_plain (runtime s) (encryptedTotalPoints s) + a div POINTS_DIVISOR"
    and "h \<le> fresh (runtime s) \<Longrightarrow> FHE_plain (runtime s') h = FHE_plain (runtime s) h"
    and "grants (runtime s') =
           grants (runtime s) \<union>
           {(encryptedContributions s' (msg_sender m), this s),
            (encryptedContributions s' (msg_sender m), msg_sender m),
            (encryptedPoints s' (msg_sender m), this s),
            (encryptedPoints s' (msg_sender m), msg_sender m),
            (encryptedTotalRaised s', this s), (encryptedTotalPoints s', this s)} \<union>
           (if fundraiser (campaign s) \<noteq> 0
            then {(encryptedTotalRaised s', fundraiser (campaign s)),
                  (encryptedTotalPoints s', fundraiser (campaign s))}
            else {})"
    and "u \<noteq> msg_sender m \<Longrightarrow> encryptedContributions s' u = encryptedContributions s u"
    and "u \<noteq> msg_sender m \<Longrightarrow> encryptedPoints s' u = encryptedPoints s u"
    and "fresh (runtime s) < encryptedContributions s' (msg_sender m)
         \<and> encryptedContributions s' (msg_sender m) < encryptedPoints s' (msg_sender m)
         \<and> encryptedPoints s' (msg_sender m) < encryptedTotalRaised s'
         \<and> encryptedTotalRaised s' < encryptedTotalPoints s'
         \<and> encryptedTotalPoints s' = fresh (runtime s')"
proof -
  define f where "f = fresh (runtime s)"
  define hc where "hc = Suc (Suc f)"
  define hp where "hp = Suc (Suc hc)"
  define ht where "ht = Suc hp"
  define hq where "hq = Suc ht"
  note hs = hq_def ht_def hp_def hc_def
  define k1 where "k1 = snd (FHE_new a (runtime s))"
  define k2 where "k2 = snd (FHE_add (encryptedContributions s (msg_sender m)) (Suc f) k1)"
  define k3 where "k3 = snd (FHE_div (Suc f) POINTS_DIVISOR k2)"
  define k4 where "k4 = snd (FHE_add (encryptedPoints s (msg_sender m)) (Suc hc) k3)"
  define k5 where "k5 = snd (FHE_add (encryptedTotalRaised s) (Suc f) k4)"
  define k6 where "k6 = snd (FHE_add (encryptedTotalPoints s) (Suc hc) k5)"
  define k12 where "k12 =
    FHE_allow hq (this s) (FHE_allow ht (this s)
      (FHE_allow hp (msg_sender m) (FHE_allow hp (this s)
        (FHE_allow hc (msg_sender m) (FHE_allow hc (this s) k6)))))"
  define k13 where "k13 =
    (if fundraiser (campaign s) \<noteq> 0
     then FHE_allow hq (fundraiser (campaign s)) (FHE_allow ht (fundraiser (campaign s)) k12)
     else k12)"
  note ks = k6_def k5_def k4_def k3_def k2_def k1_def
  have f1: "fresh k1 = Suc f" by (simp add: k1_def f_def)
  have f2: "fresh k2 = hc" by (simp add: k2_def f1 hs)
  have f3: "fresh k3 = Suc hc" by (simp add: k3_def f2)
  have f4: "fresh k4 = hp" by (simp add: k4_def f3 hs)
  have f5: "fresh k5 = ht" by (simp add: k5_def f4 hs)
  have f6: "fresh k6 = hq" by (simp add: k6_def f5 hs)
  have g: "grants k6 = grants (runtime s)" by (simp add: ks)
  have p1: "FHE_plain k1 h = (if h = Suc f then a else FHE_plain (runtime s) h)" for h
    by (simp add: k1_def f_def)
  have p2: "FHE_plain k2 h =
      (if h = hc
       then FHE_plain k1 (encryptedContributions s (msg_sender m)) + FHE_plain k1 (Suc f)
       else FHE_plain k1 h)" for h
    by (simp add: k2_def f1 hs)
  have p3: "FHE_plain k3 h =
      (if h = Suc hc then FHE_plain k2 (Suc f) div POINTS_DIVISOR else FHE_plain k2 h)" for h
    by (simp add: k3_def f2)
  have p4: "FHE_plain k4 h =
      (if h = hp then FHE_plain k3 (encryptedPoints s (msg_sender m)) + FHE_plain k3 (Suc hc)
       else FHE_plain k3 h)" for h
    by (simp add: k4_def f3 hs)
  have p5: "FHE_plain k5 h =
      (if h = ht then FHE_plain k4 (encryptedTotalRaised s) + FHE_plain k4 (Suc f)
       else FHE_plain k4 h)" for h
    by (simp add: k5_def f4 hs)
  have p6: "FHE_plain k6 h =
      (if h = hq then FHE_plain k5 (encryptedTotalPoints s) + FHE_plain k5 (Suc hc)
       else FHE_plain k5 h)" for h
    by (simp add: k6_def f5 hs)
  from contribute_Inr [OF c] have ok: "isActive (campaign s)"
    "block_timestamp m < endTimestamp (campaign s)" "v \<noteq> 0" "p = ValidProof"
    "unat (totalRaised s) + unat v < 2 ^ 256" by simp_all
  from ok(2) have late: "\<not> endTimestamp (campaign s) \<le> block_timestamp m" by simp
  from ok(5) have fits: "\<not> 2 ^ 256 \<le> unat (totalRaised s) + unat v" by simp
  have "\<exists>t. contribute (ExternalEuint128 a) ValidProof v m s = Inr t \<and> runtime t = k13
      \<and> encryptedContributions t = (encryptedContributions s)(msg_sender m := hc)
      \<and> encryptedPoints t = (encryptedPoints s)(msg_sender m := hp)
      \<and> encryptedTotalRaised t = ht \<and> encryptedTotalPoints t = hq"
    using fits
    unfolding contribute_def FHE_fromExternal.simps option.case Let_def split_beta k13_def k12_def
      ks hs f_def
    by (simp add: ok(1,3) late
        del: FHE_new_simps(4) FHE_add_simps(4) FHE_div_simps(4) FHE_allow_simps(3))
  with c ok(4) have r: "runtime s' = k13"
    and sc: "encryptedContributions s' = (encryptedContributions s)(msg_sender m := hc)"
    and sp: "encryptedPoints s' = (encryptedPoints s)(msg_sender m := hp)"
    and st: "encryptedTotalRaised s' = ht" and sq: "encryptedTotalPoints s' = hq"
    by simp_all
  have rp: "FHE_plain (runtime s') h = FHE_plain k6 h" for h
    by (simp add: r k13_def k12_def)
  have rf: "fresh (runtime s') = hq"
    by (simp add: r k13_def k12_def f6)
  note bounds = cu [folded f_def] pu [folded f_def] tr [folded f_def] tp [folded f_def]
  note ps = rp p6 p5 p4 p3 p2 p1
  show "FHE_plain (runtime s') (encryptedContributions s' (msg_sender m)) =
           FHE_plain (runtime s) (encryptedContributions s (msg_sender m)) + a"
    using bounds by (simp add: sc ps hs)
  show "FHE_plain (runtime s') (encryptedPoints s' (msg_sender m)) =
           FHE_plain (runtime s) (encryptedPoints s (msg_sender m)) + a div POINTS_DIVISOR"
    using bounds by (simp add: sp ps hs)
  show "FHE_plain (runtime s') (encryptedTotalRaised s') =
           FHE_plain (runtime s) (encryptedTotalRaised s) + a"
    using bounds by (simp add: st ps hs)
  show "FHE_plain (runtime s') (encryptedTotalPoints s') =
           FHE_plain (runtime s) (encryptedTotalPoints s) + a div POINTS_DIVISOR"
    using bounds by (simp add: sq ps hs)
  show "h \<le> fresh (runtime s) \<Longrightarrow> FHE_plain (runtime s') h = FHE_plain (runtime s) h"
    by (simp add: ps hs flip: f_def)
  show "grants (runtime s') =
           grants (runtime s) \<union>
           {(encryptedContributions s' (msg_sender m), this s),
            (encryptedContributions s' (msg_sender m), msg_sender m),
            (encryptedPoints s' (msg_sender m), this s),
            (encryptedPoints s' (msg_sender m), msg_sender m),
            (encryptedTotalRaised s', this s), (encryptedTotalPoints s', this s)} \<union>
           (if fundraiser (campaign s) \<noteq> 0
            then {(encryptedTotalRaised s', fundraiser (campaign s)),
                  (encryptedTotalPoints s', fundraiser (campaign s))}
            else {})"
    by (auto simp: r k13_def k12_def g sc sp st sq)
  show "u \<noteq> msg_sender m \<Longrightarrow> encryptedContributions s' u = encryptedContributions s u"
    by (simp add: sc)
  show "u \<noteq> msg_sender m \<Longrightarrow> encryptedPoints s' u = encryptedPoints s u"
    by (simp add: sp)
  show "fresh (runtime s) < encryptedContributions s' (msg_sender m)
         \<and> encryptedContributions s' (msg_sender m) < encryptedPoints s' (msg_sender m)
         \<and> encryptedPoints s' (msg_sender m) < encryptedTotalRaised s'
         \<and> encryptedTotalRaised s' < encryptedTotalPoints s'
         \<and> encryptedTotalPoints s' = fresh (runtime s')"
    by (simp add: sc sp st sq rf hs flip: f_def)
qed

text \<open>The other two operations leave the ledger, the runtime and the total alone.\<close>

lemma createCampaign_ledger:
  assumes "createCampaign nm target endTs m s = Inr s'"
  shows "runtime s' = runtime s \<and> encryptedContributions s' = encryptedContributions s
    \<and> encryptedPoints s' = encryptedPoints s \<and> encryptedTotalRaised s' = encryptedTotalRaised s
    \<and> encryptedTotalPoints s' = encryptedTotalPoints s \<and> totalRaised s' = totalRaised s
    \<and> this s' = this s"
  using assms by (auto simp: createCampaign_def split: if_splits)

lemma endCampaign_ledger:
  assumes "endCampaign ok m s = Inr s'"
  shows "runtime s' = runtime s \<and> encryptedContributions s' = encryptedContributions s
    \<and> encryptedPoints s' = encryptedPoints s \<and> encryptedTotalRaised s' = encryptedTotalRaised s
    \<and> encryptedTotalPoints s' = encryptedTotalPoints s \<and> totalRaised s' = totalRaised s
    \<and> this s' = this s"
  using assms by (auto simp: endCampaign_def split: if_splits)

lemma exec_other_ledger:
  assumes e: "exec m c s = Inr s'" and n: "\<And>x p v. c \<noteq> Contribute x p v"
  shows "runtime s' = runtime s \<and> encryptedContributions s' = encryptedContributions s
    \<and> encryptedPoints s' = encryptedPoints s \<and> encryptedTotalRaised s' = encryptedTotalRaised s
    \<and> encryptedTotalPoints s' = encryptedTotalPoints s \<and> totalRaised s' = totalRaised s
    \<and> this s' = this s"
proof (cases c)
  case (CreateCampaign nm target endTs)
  with e have "createCampaign nm target endTs m s = Inr s'" by simp
  then show ?thesis by (rule createCampaign_ledger)
next
  case (Contribute x p v)
  with n show ?thesis by blast
next
  case (EndCampaign ok)
  with e have "endCampaign ok m s = Inr s'" by simp
  then show ?thesis by (rule endCampaign_ledger)
qed

lemma handles_issuedD:
  assumes "handles_issued s"
  shows "encryptedTotalRaised s \<le> fresh (runtime s)"
    and "encryptedTotalPoints s \<le> fresh (runtime s)"
    and "encryptedContributions s u \<le> fresh (runtime s)"
    and "encryptedPoints s u \<le> fresh (runtime s)"
    and "(h, q) \<in> grants (runtime s) \<Longrightarrow> 0 < h \<and> h \<le> fresh (runtime s)"
  using assms unfolding handles_issued_def by blast+

lemma exec_handles_issued:
  assumes e: "exec m c s = Inr s'" and h: "handles_issued s"
  shows "handles_issued s'"
proof (cases "\<exists>x p v. c = Contribute x p v")
  case False
  then have "\<And>x p v. c \<noteq> Contribute x p v" by blast
  from exec_other_ledger [OF e this] h show ?thesis
    by (simp add: handles_issued_def)
next
  case True
  then obtain x p v where cc: "c = Contribute x p v" by blast
  obtain a where x: "x = ExternalEuint128 a" by (cases x)
  with e cc have c: "contribute (ExternalEuint128 a) p v m s = Inr s'" by simp
  note l = contribute_ledger [OF c handles_issuedD(3,4,1,2) [OF h]]
  note o = l(9)
  have 1: "encryptedTotalRaised s' \<le> fresh (runtime s')" using o by simp
  have 2: "encryptedTotalPoints s' \<le> fresh (runtime s')" using o by simp
  have 3: "encryptedContributions s' u \<le> fresh (runtime s')" for u
    using o l(7) [of u] handles_issuedD(3) [OF h, of u] by (cases "u = msg_sender m") simp_all
  have 4: "encryptedPoints s' u \<le> fresh (runtime s')" for u
    using o l(8) [of u] handles_issuedD(4) [OF h, of u] by (cases "u = msg_sender m") simp_all
  have 5: "0 < hd \<and> hd \<le> fresh (runtime s')" if "(hd, q) \<in> grants (runtime s')" for hd q
    using that o handles_issuedD(5) [OF h, of hd q] unfolding l(6)
    by (auto split: if_splits)
  from 1 2 3 4 5 show ?thesis unfolding handles_issued_def by blast
qed

lemma step_handles_issued: "handles_issued s \<Longrightarrow> handles_issued (step tx s)"
  by (cases "exec (fst tx) (snd tx) s") (auto simp: step_def dest: exec_handles_issued)

lemma run_handles_issued: "handles_issued s \<Longrightarrow> handles_issued (run txs s)"
  by (induction txs arbitrary: s) (simp_all add: step_handles_issued)

lemma deploy_handles_issued: "handles_issued (deploy d)"
  by (simp add: handles_issued_def deploy_def)

text \<open>What an accepted contribution does to the decrypted ledger.\<close>

lemma contribute_decrypted:
  assumes c: "contribute (ExternalEuint128 a) p v m s = Inr s'" and h: "handles_issued s"
  shows "contribution_of s' u =
           (if u = msg_sender m then contribution_of s u + a else contribution_of s u)"
    and "points_of s' u =
           (if u = msg_sender m then points_of s u + a div POINTS_DIVISOR else points_of s u)"
    and "total_raised_of s' = total_raised_of s + a"
    and "total_points_of s' = total_points_of s + a div POINTS_DIVISOR"
proof -
  note l = contribute_ledger [OF c handles_issuedD(3,4,1,2) [OF h]]
  show "contribution_of s' u =
           (if u = msg_sender m then contribution_of s u + a else contribution_of s u)"
    using l(1) l(7) [of u] l(5) [OF handles_issuedD(3) [OF h, of u]]
    by (simp add: decrypted)
  show "points_of s' u =
           (if u = msg_sender m then points_of s u + a div POINTS_DIVISOR else points_of s u)"
    using l(2) l(8) [of u] l(5) [OF handles_issuedD(4) [OF h, of u]]
    by (simp add: decrypted)
  show "total_raised_of s' = total_raised_of s + a"
    using l(3) by (simp add: decrypted)
  show "total_points_of s' = total_points_of s + a div POINTS_DIVISOR"
    using l(4) by (simp add: decrypted)
qed

lemma exec_other_decrypted:
  assumes e: "exec m c s = Inr s'" and n: "\<And>x p v. c \<noteq> Contribute x p v"
  shows "contribution_of s' = contribution_of s" and "points_of s' = points_of s"
    and "total_raised_of s' = total_raised_of s" and "total_points_of s' = total_points_of s"
  using exec_other_ledger [OF e n]
  by (simp_all add: decrypted fun_eq_iff)

section \<open>Sums over a trace\<close>

text \<open>A transaction reverts, is an accepted contribution, or is another call that succeeds.\<close>

lemma tx_cases [case_names reverted contributed other]:
  obtains
    (reverted) e where "exec m c s = Inl e" and "step (m, c) s = s"
      and "\<And>txs. accepted ((m, c) # txs) s = accepted txs s"
  | (contributed) a p v where "c = Contribute (ExternalEuint128 a) p v"
      and "contribute (ExternalEuint128 a) p v m s = Inr (step (m, c) s)"
      and "\<And>txs. accepted ((m, c) # txs) s =
             \<lparr>contributor = msg_sender m, amount = a, public_value = v\<rparr> # accepted txs (step (m, c) s)"
  | (other) "exec m c s = Inr (step (m, c) s)" and "\<And>x p v. c \<noteq> Contribute x p v"
      and "\<And>txs. accepted ((m, c) # txs) s = accepted txs (step (m, c) s)"
proof (cases "exec m c s")
  case (Inl e)
  then show ?thesis by (intro reverted [of e]) (simp_all add: step_def)
next
  case (Inr s')
  show ?thesis
  proof (cases c)
    case (CreateCampaign nm target endTs)
    with Inr show ?thesis by (intro other) (simp_all add: step_def)
  next
    case (Contribute x p v)
    obtain a where "x = ExternalEuint128 a" by (cases x)
    with Inr Contribute show ?thesis by (intro contributed [of a p v]) (simp_all add: step_def)
  next
    case (EndCampaign ok)
    with Inr show ?thesis by (intro other) (simp_all add: step_def)
  qed
qed

lemma accepted_append: "accepted (txs @ txs') s = accepted txs s @ accepted txs' (run txs s)"
proof (induction txs arbitrary: s)
  case Nil
  show ?case by simp
next
  case (Cons tx txs)
  obtain m c where tx: "tx = (m, c)" by (cases tx)
  show ?case unfolding tx
    by (cases m c s rule: tx_cases) (simp_all add: Cons.IH del: accepted.simps)
qed

text \<open>The public total is the sum of the accepted public values.\<close>

lemma run_totalRaised:
  "unat (totalRaised (run txs s)) =
     unat (totalRaised s) + (\<Sum>c\<leftarrow>accepted txs s. unat (public_value c))"
proof (induction txs arbitrary: s)
  case Nil
  show ?case by simp
next
  case (Cons tx txs)
  obtain m c where tx: "tx = (m, c)" by (cases tx)
  show ?case
  proof (cases m c s rule: tx_cases)
    case (reverted e)
    then show ?thesis by (simp add: tx Cons.IH del: accepted.simps)
  next
    case (contributed a p v)
    from contribute_Inr [OF contributed(2)]
    have "unat (totalRaised s) + unat v < 2 ^ LENGTH(256)" by simp
    then have "unat (totalRaised s + v) = unat (totalRaised s) + unat v"
      by (simp only: unat_add_lem)
    with contribute_fields(2) [OF contributed(2)] contributed(3) show ?thesis
      by (simp add: tx Cons.IH del: accepted.simps)
  next
    case other
    from exec_other_ledger [OF other(1,2)] other(3) show ?thesis
      by (simp add: tx Cons.IH del: accepted.simps)
  qed
qed

text \<open>The decrypted ledger is the sum, modulo \<open>2 ^ 128\<close>, of the accepted amounts.\<close>

lemma run_decrypted:
  assumes "handles_issued s"
  shows "total_raised_of (run txs s) = total_raised_of s + (\<Sum>c\<leftarrow>accepted txs s. amount c)"
    and "total_points_of (run txs s) =
           total_points_of s + (\<Sum>c\<leftarrow>accepted txs s. amount c div POINTS_DIVISOR)"
    and "contribution_of (run txs s) u =
           contribution_of s u + (\<Sum>c\<leftarrow>filter (\<lambda>c. contributor c = u) (accepted txs s). amount c)"
    and "points_of (run txs s) u =
           points_of s u +
           (\<Sum>c\<leftarrow>filter (\<lambda>c. contributor c = u) (accepted txs s). amount c div POINTS_DIVISOR)"
  using assms
proof (induction txs arbitrary: s)
  case Nil
  {
    case 1 show ?case by simp
  next
    case 2 show ?case by simp
  next
    case 3 show ?case by simp
  next
    case 4 show ?case by simp
  }
next
  case (Cons tx txs)
  obtain m c where tx: "tx = (m, c)" by (cases tx)
  {
    case 1
    from 1 have h: "handles_issued (step (m, c) s)" by (rule step_handles_issued)
    show ?case
    proof (cases m c s rule: tx_cases)
      case (reverted e)
      with Cons.IH(1) [OF 1] show ?thesis by (simp add: tx del: accepted.simps)
    next
      case (contributed a p v)
      with Cons.IH(1) [OF h] contribute_decrypted(3) [OF contributed(2) 1] show ?thesis
        by (simp add: tx ac_simps del: accepted.simps)
    next
      case other
      with Cons.IH(1) [OF h] exec_other_decrypted(3) [OF other(1,2)] show ?thesis
        by (simp add: tx del: accepted.simps)
    qed
  next
    case 2
    from 2 have h: "handles_issued (step (m, c) s)" by (rule step_handles_issued)
    show ?case
    proof (cases m c s rule: tx_cases)
      case (reverted e)
      with Cons.IH(2) [OF 2] show ?thesis by (simp add: tx del: accepted.simps)
    next
      case (contributed a p v)
      with Cons.IH(2) [OF h] contribute_decrypted(4) [OF contributed(2) 2] show ?thesis
        by (simp add: tx ac_simps del: accepted.simps)
    next
      case other
      with Cons.IH(2) [OF h] exec_other_decrypted(4) [OF other(1,2)] show ?thesis
        by (simp add: tx del: accepted.simps)
    qed
  next
    case 3
    from 3 have h: "handles_issued (step (m, c) s)" by (rule step_handles_issued)
    show ?case
    proof (cases m c s rule: tx_cases)
      case (reverted e)
      with Cons.IH(3) [OF 3] show ?thesis by (simp add: tx del: accepted.simps)
    next
      case (contributed a p v)
      with Cons.IH(3) [OF h] contribute_decrypted(1) [OF contributed(2) 3, of u] show ?thesis
        by (simp add: tx ac_simps del: accepted.simps)
    next
      case other
      with Cons.IH(3) [OF h] exec_other_decrypted(1) [OF other(1,2)] show ?thesis
        by (simp add: tx del: accepted.simps)
    qed
  next
    case 4
    from 4 have h: "handles_issued (step (m, c) s)" by (rule step_handles_issued)
    show ?case
    proof (cases m c s rule: tx_cases)
      case (reverted e)
      with Cons.IH(4) [OF 4] show ?thesis by (simp add: tx del: accepted.simps)
    next
      case (contributed a p v)
      with Cons.IH(4) [OF h] contribute_decrypted(2) [OF contributed(2) 4, of u] show ?thesis
        by (simp add: tx ac_simps del: accepted.simps)
    next
      case other
      with Cons.IH(4) [OF h] exec_other_decrypted(2) [OF other(1,2)] show ?thesis
        by (simp add: tx del: accepted.simps)
    qed
  }
qed

lemma deploy_zero:
  "totalRaised (deploy d) = 0" "total_raised_of (deploy d) = 0" "total_points_of (deploy d) = 0"
  "contribution_of (deploy d) u = 0" "points_of (deploy d) u = 0"
  by (simp_all add: evaluate)

lemma unat_sum_list:
  "unat (sum_list ws) = sum_list (map unat ws) mod 2 ^ LENGTH('a)" for ws :: "'a::len word list"
proof (induction ws)
  case Nil
  show ?case by simp
next
  case (Cons w ws)
  have "unat (w + sum_list ws) = (unat w + unat (sum_list ws)) mod 2 ^ LENGTH('a)"
    by (simp add: unat_word_ariths)
  also have "\<dots> = (unat w + sum_list (map unat ws)) mod 2 ^ LENGTH('a)"
    by (simp add: Cons.IH mod_add_right_eq)
  finally show ?case by simp
qed

section \<open>The public total\<close>

text \<open>
  Claim C1. After any sequence of transactions from deployment, \<open>totalRaised\<close> is
  exactly the sum of the public values of the accepted \<^verbatim>\<open>contribute\<close> calls: the
  addition is checked, so an accepted call never wraps around. An accepted
  contribution adds its public value; no other operation changes \<open>totalRaised\<close>
  (\<^verbatim>\<open>endCampaign\<close> leaves it as it is, too).
\<close>

theorem totalRaised_conservation:
  "unat (totalRaised (run txs (deploy d))) = (\<Sum>c\<leftarrow>accepted txs (deploy d). unat (public_value c))
   \<and> (exec m c s = Inr s' \<longrightarrow>
        (case c of
           Contribute x p v \<Rightarrow> unat (totalRaised s') = unat (totalRaised s) + unat v
         | _ \<Rightarrow> totalRaised s' = totalRaised s))"
proof -
  have "unat (totalRaised (run txs (deploy d))) =
      (\<Sum>c\<leftarrow>accepted txs (deploy d). unat (public_value c))"
    by (simp add: run_totalRaised deploy_zero)
  moreover have "case c of
           Contribute x p v \<Rightarrow> unat (totalRaised s') = unat (totalRaised s) + unat v
         | _ \<Rightarrow> totalRaised s' = totalRaised s" if e: "exec m c s = Inr s'"
  proof (cases c)
    case (CreateCampaign nm target endTs)
    with e createCampaign_ledger [of nm target endTs m s s'] show ?thesis by simp
  next
    case (Contribute x p v)
    with e have c: "contribute x p v m s = Inr s'" by simp
    from contribute_Inr [OF c]
    have "unat (totalRaised s) + unat v < 2 ^ LENGTH(256)" by simp
    then have "unat (totalRaised s + v) = unat (totalRaised s) + unat v"
      by (simp only: unat_add_lem)
    with contribute_fields(2) [OF c] Contribute show ?thesis by simp
  next
    case (EndCampaign ok)
    with e endCampaign_ledger [of ok m s s'] show ?thesis by simp
  qed
  ultimately show ?thesis by blast
qed

theorem totalRaised_conservation_witness:
  "accepted [creation, contribution 9 2 1, contribution 8 5 3, ending, contribution 9 1 1] (deploy 1) =
     [\<lparr>contributor = 9, amount = 2, public_value = 1\<rparr>,
      \<lparr>contributor = 8, amount = 5, public_value = 3\<rparr>]
   \<and> unat (totalRaised (run [creation, contribution 9 2 1, contribution 8 5 3, ending,
        contribution 9 1 1] (deploy 1))) = 4
   \<and> exec \<lparr>msg_sender = 8, block_timestamp = 200\<rparr> (Contribute (ExternalEuint128 5) ValidProof 3)
        (run [creation, contribution 9 2 1] (deploy 1))
      = Inr (run [creation, contribution 9 2 1, contribution 8 5 3] (deploy 1))
   \<and> unat (totalRaised (run [creation, contribution 9 2 1, contribution 8 5 3] (deploy 1))) =
       unat (totalRaised (run [creation, contribution 9 2 1] (deploy 1))) + 3
   \<and> exec \<lparr>msg_sender = 7, block_timestamp = 300\<rparr> (EndCampaign True)
        (run [creation, contribution 9 2 1, contribution 8 5 3] (deploy 1))
      = Inr (run [creation, contribution 9 2 1, contribution 8 5 3, ending] (deploy 1))
   \<and> totalRaised (run [creation, contribution 9 2 1, contribution 8 5 3, ending] (deploy 1)) =
       totalRaised (run [creation, contribution 9 2 1, contribution 8 5 3] (deploy 1))"
proof -
  define s1 where "s1 = run [creation, contribution 9 2 1] (deploy 1)"
  define s2 where "s2 = run [creation, contribution 9 2 1, contribution 8 5 3] (deploy 1)"
  define s3 where "s3 = run [creation, contribution 9 2 1, contribution 8 5 3, ending] (deploy 1)"
  have a: "accepted [creation, contribution 9 2 1, contribution 8 5 3, ending, contribution 9 1 1]
      (deploy 1) =
     [\<lparr>contributor = 9, amount = 2, public_value = 1\<rparr>,
      \<lparr>contributor = 8, amount = 5, public_value = 3\<rparr>]"
    by (simp add: evaluate)
  have c: "exec \<lparr>msg_sender = 8, block_timestamp = 200\<rparr>
      (Contribute (ExternalEuint128 5) ValidProof 3) s1 = Inr s2"
    by (simp add: s1_def s2_def evaluate)
  have e: "exec \<lparr>msg_sender = 7, block_timestamp = 300\<rparr> (EndCampaign True) s2 = Inr s3"
    by (simp add: s2_def s3_def evaluate)
  from totalRaised_conservation [where d = 1 and txs = "[creation, contribution 9 2 1,
      contribution 8 5 3, ending, contribution 9 1 1]"] a
  have 1: "unat (totalRaised (run [creation, contribution 9 2 1, contribution 8 5 3, ending,
        contribution 9 1 1] (deploy 1))) = 4"
    by simp
  from totalRaised_conservation [where m = "\<lparr>msg_sender = 8, block_timestamp = 200\<rparr>"
      and c = "Contribute (ExternalEuint128 5) ValidProof 3" and s = s1 and s' = s2] c
  have 2: "unat (totalRaised s2) = unat (totalRaised s1) + 3"
    by simp
  from totalRaised_conservation [where m = "\<lparr>msg_sender = 7, block_timestamp = 300\<rparr>"
      and c = "EndCampaign True" and s = s2 and s' = s3] e
  have 3: "totalRaised s3 = totalRaised s2"
    by simp
  from a 1 c 2 e 3 show ?thesis
    unfolding s1_def s2_def s3_def by (intro conjI)
qed

section \<open>The public total and its encrypted shadow\<close>

text \<open>
  Claim C3, as stated, fails: the contract never compares the ether attached to a
  contribution with the plaintext of the ingested ciphertext. A contribution that
  attaches 1 wei and encrypts the amount 2 is accepted, and leaves \<open>totalRaised = 1\<close>
  next to an encrypted total that decrypts to 2.
\<close>

theorem shadow_total_counterexample:
  "accepted [creation, contribution 9 2 1] (deploy 1) =
      [\<lparr>contributor = 9, amount = 2, public_value = 1\<rparr>]
   \<and> totalRaised (run [creation, contribution 9 2 1] (deploy 1)) = 1
   \<and> total_raised_of (run [creation, contribution 9 2 1] (deploy 1)) = 2
   \<and> unat (totalRaised (run [creation, contribution 9 2 1] (deploy 1)))
       \<noteq> unat (total_raised_of (run [creation, contribution 9 2 1] (deploy 1)))"
  by (simp add: evaluate)

text \<open>
  Claim C3, amended. If every accepted contribution attached a public value equal to
  the plaintext of its encrypted amount, then in every state reached from deployment
  the encrypted total decrypts to \<open>totalRaised\<close> modulo \<open>2 ^ 128\<close> (the width of the
  encrypted integers), hence to \<open>totalRaised\<close> itself while that is below \<open>2 ^ 128\<close>.
\<close>

theorem shadow_total_consistent:
  assumes "\<forall>c\<in>set (accepted txs (deploy d)). unat (amount c) = unat (public_value c)"
  shows "unat (total_raised_of (run txs (deploy d))) =
           unat (totalRaised (run txs (deploy d))) mod 2 ^ 128"
proof -
  have "total_raised_of (run txs (deploy d)) = (\<Sum>c\<leftarrow>accepted txs (deploy d). amount c)"
    by (simp add: run_decrypted(1) [OF deploy_handles_issued] deploy_zero)
  then have "unat (total_raised_of (run txs (deploy d))) =
      (\<Sum>c\<leftarrow>accepted txs (deploy d). unat (amount c)) mod 2 ^ 128"
    by (simp add: unat_sum_list comp_def)
  also from assms have "(\<Sum>c\<leftarrow>accepted txs (deploy d). unat (amount c)) =
      (\<Sum>c\<leftarrow>accepted txs (deploy d). unat (public_value c))"
    by (auto intro: arg_cong [where f = sum_list])
  also have "\<dots> = unat (totalRaised (run txs (deploy d)))"
    by (simp add: run_totalRaised deploy_zero)
  finally show ?thesis .
qed

theorem shadow_total_consistent_witness:
  "(accepted [creation, contribution 9 2 2, contribution 8 5 5] (deploy 1) =
      [\<lparr>contributor = 9, amount = 2, public_value = 2\<rparr>,
       \<lparr>contributor = 8, amount = 5, public_value = 5\<rparr>])
   \<and> unat (total_raised_of (run [creation, contribution 9 2 2, contribution 8 5 5] (deploy 1))) = 7
   \<and> unat (totalRaised (run [creation, contribution 9 2 2, contribution 8 5 5] (deploy 1))) = 7"
proof -
  have a: "accepted [creation, contribution 9 2 2, contribution 8 5 5] (deploy 1) =
      [\<lparr>contributor = 9, amount = 2, public_value = 2\<rparr>,
       \<lparr>contributor = 8, amount = 5, public_value = 5\<rparr>]"
    by (simp add: evaluate)
  have t: "totalRaised (run [creation, contribution 9 2 2, contribution 8 5 5] (deploy 1)) = 7"
    by (simp add: evaluate)
  from shadow_total_consistent [where d = 1 and txs = "[creation, contribution 9 2 2,
      contribution 8 5 5]"] a t
  show ?thesis by simp
qed

section \<open>Reward points\<close>

text \<open>Dividing by \<open>POINTS_DIVISOR\<close> is integer division by \<open>10 ^ 12\<close>, rounding down.\<close>

lemma unat_POINTS_DIVISOR: "unat POINTS_DIVISOR = 1000000000000"
  by (simp add: POINTS_DIVISOR_def)

lemma unat_points: "unat (a div POINTS_DIVISOR) = unat a div 1000000000000"
  by (simp add: unat_div unat_POINTS_DIVISOR)

lemma points_sum_le:
  "(x :: nat) div 1000000000000 + y div 1000000000000 \<le> (x + y) div 1000000000000"
  by (simp only: div_add1_eq [of x y])

lemma unat_points_add:
  "unat (a div POINTS_DIVISOR + b div POINTS_DIVISOR) =
     unat a div 1000000000000 + unat b div 1000000000000"
proof -
  have "unat a < 2 ^ 128" and "unat b < 2 ^ 128"
    using unsigned_less [of a] unsigned_less [of b] by simp_all
  then have "unat a div 1000000000000 \<le> unat a div 2" "unat b div 1000000000000 \<le> unat b div 2"
    "unat a div 2 + unat b div 2 < 2 ^ 128"
    by (simp_all add: div_le_mono2)
  then have "unat a div 1000000000000 + unat b div 1000000000000 < 2 ^ LENGTH(128)"
    by simp
  then have "unat (a div POINTS_DIVISOR) + unat (b div POINTS_DIVISOR) < 2 ^ LENGTH(128)"
    by (simp only: unat_points)
  then have "unat (a div POINTS_DIVISOR + b div POINTS_DIVISOR) =
      unat (a div POINTS_DIVISOR) + unat (b div POINTS_DIVISOR)"
    by (simp only: unat_add_lem)
  then show ?thesis by (simp only: unat_points)
qed

lemma strict_example:
  "unat ((600000000000 :: uint128) div POINTS_DIVISOR + 600000000000 div POINTS_DIVISOR)
        < (unat (600000000000 :: uint128) + unat (600000000000 :: uint128)) div 1000000000000"
  by (simp add: POINTS_DIVISOR_def)

text \<open>
  Claim C2. An accepted contribution of encrypted amount \<open>a\<close> adds
  \<open>a div 10 ^ 12\<close> (rounded down) to the caller's encrypted points and to the
  encrypted points total. Two contributions \<open>a1\<close>, \<open>a2\<close> of one contributor add
  \<open>a1 div 10 ^ 12 + a2 div 10 ^ 12\<close>, a sum that itself never wraps around; it is at
  most \<open>(a1 + a2) div 10 ^ 12\<close> and can be strictly less (twice \<open>6 * 10 ^ 11\<close> gives
  no point): the quotient is taken per call and never recomputed from the sum.
\<close>

theorem points_truncation:
  assumes c1: "contribute (ExternalEuint128 a1) p1 v1 m (run txs (deploy d)) = Inr s1"
  shows "points_of s1 (msg_sender m) =
           points_of (run txs (deploy d)) (msg_sender m) + a1 div POINTS_DIVISOR
       \<and> total_points_of s1 = total_points_of (run txs (deploy d)) + a1 div POINTS_DIVISOR
       \<and> unat (a1 div POINTS_DIVISOR) = unat a1 div 1000000000000
       \<and> (\<forall>a2 p2 v2 m' s2.
             contribute (ExternalEuint128 a2) p2 v2 m' s1 = Inr s2 \<and> msg_sender m' = msg_sender m \<longrightarrow>
               points_of s2 (msg_sender m) =
                 points_of (run txs (deploy d)) (msg_sender m)
                 + (a1 div POINTS_DIVISOR + a2 div POINTS_DIVISOR)
             \<and> total_points_of s2 =
                 total_points_of (run txs (deploy d)) + (a1 div POINTS_DIVISOR + a2 div POINTS_DIVISOR)
             \<and> unat (a1 div POINTS_DIVISOR + a2 div POINTS_DIVISOR) =
                 unat a1 div 1000000000000 + unat a2 div 1000000000000
             \<and> unat a1 div 1000000000000 + unat a2 div 1000000000000
                 \<le> (unat a1 + unat a2) div 1000000000000)
       \<and> (\<exists>b1 b2. unat (b1 div POINTS_DIVISOR + b2 div POINTS_DIVISOR)
                     < (unat b1 + unat b2) div 1000000000000)"
proof -
  let ?r = "run txs (deploy d)"
  have h: "handles_issued ?r" by (rule run_handles_issued [OF deploy_handles_issued])
  from c1 have "exec m (Contribute (ExternalEuint128 a1) p1 v1) ?r = Inr s1" by simp
  from exec_handles_issued [OF this h] have h1: "handles_issued s1" .
  note d1 = contribute_decrypted(2,4) [OF c1 h]
  have two: "points_of s2 (msg_sender m) =
                 points_of ?r (msg_sender m) + (a1 div POINTS_DIVISOR + a2 div POINTS_DIVISOR)
             \<and> total_points_of s2 =
                 total_points_of ?r + (a1 div POINTS_DIVISOR + a2 div POINTS_DIVISOR)
             \<and> unat (a1 div POINTS_DIVISOR + a2 div POINTS_DIVISOR) =
                 unat a1 div 1000000000000 + unat a2 div 1000000000000
             \<and> unat a1 div 1000000000000 + unat a2 div 1000000000000
                 \<le> (unat a1 + unat a2) div 1000000000000"
    if c2: "contribute (ExternalEuint128 a2) p2 v2 m' s1 = Inr s2"
      and same: "msg_sender m' = msg_sender m" for a2 p2 v2 m' s2
  proof -
    note d2 = contribute_decrypted(2,4) [OF c2 h1]
    from d1 d2 same have "points_of s2 (msg_sender m) =
        points_of ?r (msg_sender m) + (a1 div POINTS_DIVISOR + a2 div POINTS_DIVISOR)"
      and "total_points_of s2 =
        total_points_of ?r + (a1 div POINTS_DIVISOR + a2 div POINTS_DIVISOR)"
      by (simp_all add: add.assoc)
    with points_sum_le [of "unat a1" "unat a2"] unat_points_add [of a1 a2] show ?thesis
      by (intro conjI)
  qed
  have strict: "\<exists>b1 b2. unat (b1 div POINTS_DIVISOR + b2 div POINTS_DIVISOR)
                     < (unat b1 + unat b2) div 1000000000000"
    using strict_example by (intro exI)
  from d1 unat_points [of a1] have one: "points_of s1 (msg_sender m) =
           points_of ?r (msg_sender m) + a1 div POINTS_DIVISOR
       \<and> total_points_of s1 = total_points_of ?r + a1 div POINTS_DIVISOR
       \<and> unat (a1 div POINTS_DIVISOR) = unat a1 div 1000000000000"
    by simp
  show ?thesis
  proof (intro conjI allI impI)
    fix a2 p2 v2 m' s2
    assume "contribute (ExternalEuint128 a2) p2 v2 m' s1 = Inr s2 \<and> msg_sender m' = msg_sender m"
    then have t: "points_of s2 (msg_sender m) =
                 points_of ?r (msg_sender m) + (a1 div POINTS_DIVISOR + a2 div POINTS_DIVISOR)
             \<and> total_points_of s2 =
                 total_points_of ?r + (a1 div POINTS_DIVISOR + a2 div POINTS_DIVISOR)
             \<and> unat (a1 div POINTS_DIVISOR + a2 div POINTS_DIVISOR) =
                 unat a1 div 1000000000000 + unat a2 div 1000000000000
             \<and> unat a1 div 1000000000000 + unat a2 div 1000000000000
                 \<le> (unat a1 + unat a2) div 1000000000000"
      using two by blast
    from t show "points_of s2 (msg_sender m) =
        points_of ?r (msg_sender m) + (a1 div POINTS_DIVISOR + a2 div POINTS_DIVISOR)" by simp
    from t show "total_points_of s2 =
        total_points_of ?r + (a1 div POINTS_DIVISOR + a2 div POINTS_DIVISOR)" by simp
    from t show "unat (a1 div POINTS_DIVISOR + a2 div POINTS_DIVISOR) =
        unat a1 div 1000000000000 + unat a2 div 1000000000000" by simp
    from t show "unat a1 div 1000000000000 + unat a2 div 1000000000000
        \<le> (unat a1 + unat a2) div 1000000000000" by simp
  qed (use one strict in simp_all)
qed

theorem points_truncation_witness:
  "contribute (ExternalEuint128 600000000000) ValidProof 1 \<lparr>msg_sender = 9, block_timestamp = 200\<rparr>
      (run [creation] (deploy 1))
     = Inr (run [creation, contribution 9 600000000000 1] (deploy 1))
   \<and> contribute (ExternalEuint128 600000000000) ValidProof 1 \<lparr>msg_sender = 9, block_timestamp = 200\<rparr>
      (run [creation, contribution 9 600000000000 1] (deploy 1))
     = Inr (run [creation, contribution 9 600000000000 1, contribution 9 600000000000 1] (deploy 1))
   \<and> points_of (run [creation, contribution 9 600000000000 1, contribution 9 600000000000 1]
        (deploy 1)) 9 = 0
   \<and> total_points_of (run [creation, contribution 9 600000000000 1, contribution 9 600000000000 1]
        (deploy 1)) = 0
   \<and> contribution_of (run [creation, contribution 9 600000000000 1, contribution 9 600000000000 1]
        (deploy 1)) 9 div POINTS_DIVISOR = 1"
proof -
  define s0 where "s0 = run [creation] (deploy 1)"
  define s1 where "s1 = run [creation, contribution 9 600000000000 1] (deploy 1)"
  define s2 where
    "s2 = run [creation, contribution 9 600000000000 1, contribution 9 600000000000 1] (deploy 1)"
  have c1: "contribute (ExternalEuint128 600000000000) ValidProof 1
      \<lparr>msg_sender = 9, block_timestamp = 200\<rparr> (run [creation] (deploy 1)) = Inr s1"
    by (simp add: s1_def evaluate)
  have c2: "contribute (ExternalEuint128 600000000000) ValidProof 1
      \<lparr>msg_sender = 9, block_timestamp = 200\<rparr> s1 = Inr s2"
    by (simp add: s1_def s2_def evaluate)
  have z: "points_of (run [creation] (deploy 1)) 9 = 0" "total_points_of (run [creation] (deploy 1)) = 0"
    by (simp_all add: evaluate)
  have q: "(600000000000 :: uint128) div POINTS_DIVISOR = 0"
    by (simp add: POINTS_DIVISOR_def)
  have e: "contribution_of s2 9 div POINTS_DIVISOR = 1"
    by (simp add: s2_def evaluate)
  from points_truncation [OF c1]
  have "contribute (ExternalEuint128 600000000000) ValidProof 1
          \<lparr>msg_sender = 9, block_timestamp = 200\<rparr> s1 = Inr s2
        \<and> msg_sender \<lparr>msg_sender = 9 :: address, block_timestamp = 200\<rparr>
            = msg_sender \<lparr>msg_sender = 9 :: address, block_timestamp = 200 :: uint256\<rparr> \<longrightarrow>
        points_of s2 (msg_sender \<lparr>msg_sender = 9 :: address, block_timestamp = 200 :: uint256\<rparr>) =
          points_of (run [creation] (deploy 1))
            (msg_sender \<lparr>msg_sender = 9 :: address, block_timestamp = 200 :: uint256\<rparr>)
          + (600000000000 div POINTS_DIVISOR + 600000000000 div POINTS_DIVISOR)
        \<and> total_points_of s2 = total_points_of (run [creation] (deploy 1))
          + (600000000000 div POINTS_DIVISOR + 600000000000 div POINTS_DIVISOR)"
    by blast
  with c2 z q have "points_of s2 9 = 0 \<and> total_points_of s2 = 0"
    by simp
  with c1 c2 e show ?thesis by (simp add: s1_def s2_def)
qed

section \<open>Totals and entries of the encrypted ledger\<close>

text \<open>A sum over a list, grouped by a key.\<close>

lemma sum_list_grouped:
  fixes f :: "'a \<Rightarrow> 'b::comm_monoid_add"
  shows "sum_list (map f xs) = (\<Sum>u\<in>g ` set xs. sum_list (map f (filter (\<lambda>c. g c = u) xs)))"
proof (induction xs)
  case Nil
  show ?case by simp
next
  case (Cons x xs)
  let ?S = "\<lambda>u. sum_list (map f (filter (\<lambda>c. g c = u) xs))"
  let ?U = "insert (g x) (g ` set xs)"
  have fin: "finite ?U" by simp
  have none: "?S u = 0" if "u \<notin> g ` set xs" for u
  proof -
    from that have "filter (\<lambda>c. g c = u) xs = []" by (auto simp: filter_empty_conv)
    then show ?thesis by simp
  qed
  have "(\<Sum>u\<in>?U. sum_list (map f (filter (\<lambda>c. g c = u) (x # xs))))
      = (\<Sum>u\<in>?U. (if u = g x then f x else 0) + ?S u)"
    by (intro sum.cong) auto
  also have "\<dots> = (\<Sum>u\<in>?U. if u = g x then f x else 0) + (\<Sum>u\<in>?U. ?S u)"
    by (rule sum.distrib)
  also have "(\<Sum>u\<in>?U. if u = g x then f x else 0) = f x"
    using fin by (simp add: sum.delta)
  also have "(\<Sum>u\<in>?U. ?S u) = (\<Sum>u\<in>g ` set xs. ?S u)"
    by (rule sum.mono_neutral_right) (auto simp: none)
  finally show ?case by (simp add: Cons.IH)
qed

lemma unat_sum_list_prefix:
  fixes xs ys :: "'a::len word list"
  assumes "sum_list (map unat (xs @ ys)) < 2 ^ LENGTH('a)"
  shows "unat (sum_list xs) \<le> unat (sum_list (xs @ ys))"
proof -
  from assms have "unat (sum_list (xs @ ys)) = sum_list (map unat (xs @ ys))"
    by (simp only: unat_sum_list mod_less)
  moreover have "unat (sum_list xs) \<le> sum_list (map unat xs)"
    by (simp add: unat_sum_list)
  ultimately show ?thesis by simp
qed

text \<open>A slot is initialised exactly when its owner has contributed.\<close>

lemma run_slots:
  assumes "handles_issued s"
  shows "(encryptedContributions (run txs s) u \<noteq> 0 \<longleftrightarrow>
            encryptedContributions s u \<noteq> 0 \<or> u \<in> contributor ` set (accepted txs s))
       \<and> (encryptedPoints (run txs s) u \<noteq> 0 \<longleftrightarrow>
            encryptedPoints s u \<noteq> 0 \<or> u \<in> contributor ` set (accepted txs s))"
  using assms
proof (induction txs arbitrary: s)
  case Nil
  show ?case by simp
next
  case (Cons tx txs)
  obtain m c where tx: "tx = (m, c)" by (cases tx)
  from Cons.prems have h: "handles_issued (step (m, c) s)" by (rule step_handles_issued)
  show ?case
  proof (cases m c s rule: tx_cases)
    case (reverted e)
    with Cons.IH [OF Cons.prems] show ?thesis by (simp add: tx del: accepted.simps)
  next
    case (contributed a p v)
    note l = contribute_ledger [OF contributed(2) handles_issuedD(3,4,1,2) [OF Cons.prems]]
    from l(9) have new: "encryptedContributions (step (m, c) s) (msg_sender m) \<noteq> 0"
      "encryptedPoints (step (m, c) s) (msg_sender m) \<noteq> 0" by simp_all
    have "(encryptedContributions (step (m, c) s) u \<noteq> 0 \<longleftrightarrow>
            encryptedContributions s u \<noteq> 0 \<or> u = msg_sender m)
       \<and> (encryptedPoints (step (m, c) s) u \<noteq> 0 \<longleftrightarrow>
            encryptedPoints s u \<noteq> 0 \<or> u = msg_sender m)"
      using new l(7) [of u] l(8) [of u] by (cases "u = msg_sender m") simp_all
    with Cons.IH [OF h] contributed(3) show ?thesis
      by (auto simp: tx simp del: accepted.simps)
  next
    case other
    with Cons.IH [OF h] exec_other_ledger [OF other(1,2)] show ?thesis
      by (simp add: tx del: accepted.simps)
  qed
qed

lemma deploy_slots: "encryptedContributions (deploy d) u = 0" "encryptedPoints (deploy d) u = 0"
  by (simp_all add: deploy_def)

lemma unat_points_le: "unat (a div POINTS_DIVISOR) \<le> unat a"
  by (simp add: unat_points)

text \<open>
  Claim C7, as stated, fails in its last word: an entry can decrease. Homomorphic
  addition on 128-bit values wraps around and the contract does not guard against
  it, so a contributor whose entry holds \<open>2 ^ 128 - 1\<close> and who contributes the
  encrypted amount 2 is left with an entry that decrypts to 1.
\<close>

theorem ledger_entry_counterexample:
  "accepted [creation, contribution 9 340282366920938463463374607431768211455 1, contribution 9 2 1]
      (deploy 1) =
     [\<lparr>contributor = 9, amount = 340282366920938463463374607431768211455, public_value = 1\<rparr>,
      \<lparr>contributor = 9, amount = 2, public_value = 1\<rparr>]
   \<and> contribution_of
        (run [creation, contribution 9 340282366920938463463374607431768211455 1] (deploy 1)) 9
       = 340282366920938463463374607431768211455
   \<and> contribution_of
        (run [creation, contribution 9 340282366920938463463374607431768211455 1, contribution 9 2 1]
          (deploy 1)) 9 = 1
   \<and> unat (contribution_of
        (run [creation, contribution 9 340282366920938463463374607431768211455 1, contribution 9 2 1]
          (deploy 1)) 9)
       < unat (contribution_of
        (run [creation, contribution 9 340282366920938463463374607431768211455 1] (deploy 1)) 9)"
proof -
  have a: "accepted [creation, contribution 9 340282366920938463463374607431768211455 1,
        contribution 9 2 1] (deploy 1) =
     [\<lparr>contributor = 9, amount = 340282366920938463463374607431768211455, public_value = 1\<rparr>,
      \<lparr>contributor = 9, amount = 2, public_value = 1\<rparr>]"
    by (simp add: evaluate)
  have 1: "contribution_of
        (run [creation, contribution 9 340282366920938463463374607431768211455 1] (deploy 1)) 9
       = 340282366920938463463374607431768211455"
    by (simp add: evaluate)
  have 2: "contribution_of
        (run [creation, contribution 9 340282366920938463463374607431768211455 1, contribution 9 2 1]
          (deploy 1)) 9 = 1"
    by (simp add: evaluate)
  show ?thesis unfolding a 1 2 by simp
qed

text \<open>
  Claim C7, amended. In every state reached from deployment the encrypted total
  decrypts to the sum, modulo \<open>2 ^ 128\<close>, of the decrypted contribution entries of
  all contributors, and the encrypted points total to the sum of their points
  entries. An entry is initialised exactly from its owner's first accepted
  contribution on (before that it is the uninitialised handle, an encrypted zero)
  and is never reset. An entry does not decrease as long as the amounts its owner
  has contributed sum to less than \<open>2 ^ 128\<close>.
\<close>

theorem ledger_totals:
  "total_raised_of (run txs (deploy d)) =
     (\<Sum>u\<in>contributor ` set (accepted txs (deploy d)). contribution_of (run txs (deploy d)) u)
   \<and> total_points_of (run txs (deploy d)) =
     (\<Sum>u\<in>contributor ` set (accepted txs (deploy d)). points_of (run txs (deploy d)) u)
   \<and> (\<forall>u. (encryptedContributions (run txs (deploy d)) u \<noteq> 0 \<longleftrightarrow>
               u \<in> contributor ` set (accepted txs (deploy d)))
          \<and> (encryptedPoints (run txs (deploy d)) u \<noteq> 0 \<longleftrightarrow>
               u \<in> contributor ` set (accepted txs (deploy d)))
          \<and> (u \<notin> contributor ` set (accepted txs (deploy d)) \<longrightarrow>
               contribution_of (run txs (deploy d)) u = 0 \<and> points_of (run txs (deploy d)) u = 0))
   \<and> (\<forall>u txs'. encryptedContributions (run txs (deploy d)) u \<noteq> 0 \<longrightarrow>
          encryptedContributions (run (txs @ txs') (deploy d)) u \<noteq> 0
          \<and> encryptedPoints (run (txs @ txs') (deploy d)) u \<noteq> 0)
   \<and> (\<forall>u txs'.
          (\<Sum>c\<leftarrow>filter (\<lambda>c. contributor c = u) (accepted (txs @ txs') (deploy d)). unat (amount c))
            < 2 ^ 128 \<longrightarrow>
          unat (contribution_of (run txs (deploy d)) u)
            \<le> unat (contribution_of (run (txs @ txs') (deploy d)) u)
          \<and> unat (points_of (run txs (deploy d)) u)
            \<le> unat (points_of (run (txs @ txs') (deploy d)) u))"
proof -
  let ?r = "run txs (deploy d)"
  let ?A = "accepted txs (deploy d)"
  let ?U = "contributor ` set ?A"
  note h = deploy_handles_issued [of d]
  have co: "contribution_of (run ts (deploy d)) u =
      (\<Sum>c\<leftarrow>filter (\<lambda>c. contributor c = u) (accepted ts (deploy d)). amount c)" for ts u
    by (simp add: run_decrypted(3) [OF h] deploy_zero)
  have po: "points_of (run ts (deploy d)) u =
      (\<Sum>c\<leftarrow>filter (\<lambda>c. contributor c = u) (accepted ts (deploy d)). amount c div POINTS_DIVISOR)"
    for ts u
    by (simp add: run_decrypted(4) [OF h] deploy_zero)
  have 1: "total_raised_of ?r = (\<Sum>u\<in>?U. contribution_of ?r u)"
    by (simp add: run_decrypted(1) [OF h] deploy_zero co
        sum_list_grouped [where g = contributor and f = amount and xs = ?A])
  have 2: "total_points_of ?r = (\<Sum>u\<in>?U. points_of ?r u)"
    by (simp add: run_decrypted(2) [OF h] deploy_zero po
        sum_list_grouped [where g = contributor and f = "\<lambda>c. amount c div POINTS_DIVISOR" and xs = ?A])
  have sl: "(encryptedContributions (run ts (deploy d)) u \<noteq> 0 \<longleftrightarrow>
               u \<in> contributor ` set (accepted ts (deploy d)))
          \<and> (encryptedPoints (run ts (deploy d)) u \<noteq> 0 \<longleftrightarrow>
               u \<in> contributor ` set (accepted ts (deploy d)))" for ts u
    using run_slots [OF h, of ts u] by (simp add: deploy_slots)
  have zero: "contribution_of ?r u = 0 \<and> points_of ?r u = 0" if "u \<notin> ?U" for u
  proof -
    from that have "filter (\<lambda>c. contributor c = u) ?A = []"
      by (auto simp: filter_empty_conv)
    then show ?thesis by (simp add: co po)
  qed
  have 3: "(encryptedContributions ?r u \<noteq> 0 \<longleftrightarrow> u \<in> ?U)
          \<and> (encryptedPoints ?r u \<noteq> 0 \<longleftrightarrow> u \<in> ?U)
          \<and> (u \<notin> ?U \<longrightarrow> contribution_of ?r u = 0 \<and> points_of ?r u = 0)" for u
    using sl [of txs u] zero [of u] by blast
  have 4: "encryptedContributions (run (txs @ txs') (deploy d)) u \<noteq> 0
          \<and> encryptedPoints (run (txs @ txs') (deploy d)) u \<noteq> 0"
    if "encryptedContributions ?r u \<noteq> 0" for u txs'
  proof -
    from that sl [of txs u] have "u \<in> ?U" by simp
    then have "u \<in> contributor ` set (accepted (txs @ txs') (deploy d))"
      by (auto simp: accepted_append)
    with sl [of "txs @ txs'" u] show ?thesis by simp
  qed
  have 5: "unat (contribution_of ?r u) \<le> unat (contribution_of (run (txs @ txs') (deploy d)) u)
          \<and> unat (points_of ?r u) \<le> unat (points_of (run (txs @ txs') (deploy d)) u)"
    if b: "(\<Sum>c\<leftarrow>filter (\<lambda>c. contributor c = u) (accepted (txs @ txs') (deploy d)).
             unat (amount c)) < 2 ^ 128" for u txs'
  proof -
    let ?xs = "filter (\<lambda>c. contributor c = u) ?A"
    let ?ys = "filter (\<lambda>c. contributor c = u) (accepted txs' ?r)"
    have sp: "filter (\<lambda>c. contributor c = u) (accepted (txs @ txs') (deploy d)) = ?xs @ ?ys"
      by (simp add: accepted_append)
    from b have b1: "sum_list (map unat (map amount ?xs @ map amount ?ys)) < 2 ^ LENGTH(128)"
      by (simp add: sp comp_def)
    have "sum_list (map unat (map (\<lambda>c. amount c div POINTS_DIVISOR) (?xs @ ?ys)))
        \<le> sum_list (map unat (map amount (?xs @ ?ys)))"
      unfolding map_map by (rule sum_list_mono) (simp add: unat_points_le)
    with b1 have b2: "sum_list (map unat (map (\<lambda>c. amount c div POINTS_DIVISOR) ?xs
        @ map (\<lambda>c. amount c div POINTS_DIVISOR) ?ys)) < 2 ^ LENGTH(128)"
      by simp
    from unat_sum_list_prefix [OF b1] unat_sum_list_prefix [OF b2] show ?thesis
      by (simp add: co po sp)
  qed
  from 1 2 3 4 5 show ?thesis by blast
qed

theorem ledger_totals_witness:
  "total_raised_of (run [creation, contribution 9 2 1, contribution 8 5 3] (deploy 1)) =
     contribution_of (run [creation, contribution 9 2 1, contribution 8 5 3] (deploy 1)) 9
     + contribution_of (run [creation, contribution 9 2 1, contribution 8 5 3] (deploy 1)) 8
   \<and> total_points_of (run [creation, contribution 9 2 1, contribution 8 5 3] (deploy 1)) =
     points_of (run [creation, contribution 9 2 1, contribution 8 5 3] (deploy 1)) 9
     + points_of (run [creation, contribution 9 2 1, contribution 8 5 3] (deploy 1)) 8
   \<and> encryptedContributions (run [creation, contribution 9 2 1, contribution 8 5 3] (deploy 1)) 9 \<noteq> 0
   \<and> encryptedContributions (run [creation, contribution 9 2 1, contribution 8 5 3] (deploy 1)) 7 = 0
   \<and> contribution_of (run [creation, contribution 9 2 1, contribution 8 5 3] (deploy 1)) 7 = 0
   \<and> encryptedContributions
        (run ([creation, contribution 9 2 1, contribution 8 5 3] @ [contribution 9 1 1]) (deploy 1)) 9 \<noteq> 0
   \<and> unat (contribution_of (run [creation, contribution 9 2 1, contribution 8 5 3] (deploy 1)) 9)
       \<le> unat (contribution_of
            (run ([creation, contribution 9 2 1, contribution 8 5 3] @ [contribution 9 1 1]) (deploy 1)) 9)"
proof -
  define txs where "txs = [creation, contribution 9 2 1, contribution 8 5 3]"
  define txs' where "txs' = [contribution 9 1 1]"
  have a: "accepted txs (deploy 1) =
     [\<lparr>contributor = 9, amount = 2, public_value = 1\<rparr>,
      \<lparr>contributor = 8, amount = 5, public_value = 3\<rparr>]"
    by (simp add: txs_def evaluate)
  have a': "accepted (txs @ txs') (deploy 1) =
     [\<lparr>contributor = 9, amount = 2, public_value = 1\<rparr>,
      \<lparr>contributor = 8, amount = 5, public_value = 3\<rparr>,
      \<lparr>contributor = 9, amount = 1, public_value = 1\<rparr>]"
    by (simp add: txs_def txs'_def evaluate)
  have u: "contributor ` set (accepted txs (deploy 1)) = {9, 8}"
    by (simp add: a)
  have b: "(\<Sum>c\<leftarrow>filter (\<lambda>c. contributor c = 9) (accepted (txs @ txs') (deploy 1)). unat (amount c))
      < 2 ^ 128"
    by (simp add: a')
  note t = ledger_totals [where d = 1 and txs = txs]
  from t have 1: "total_raised_of (run txs (deploy 1)) =
      contribution_of (run txs (deploy 1)) 9 + contribution_of (run txs (deploy 1)) 8"
    and 2: "total_points_of (run txs (deploy 1)) =
      points_of (run txs (deploy 1)) 9 + points_of (run txs (deploy 1)) 8"
    by (simp_all add: u)
  from t have e: "(encryptedContributions (run txs (deploy 1)) w \<noteq> 0 \<longleftrightarrow>
      w \<in> contributor ` set (accepted txs (deploy 1)))
    \<and> (w \<notin> contributor ` set (accepted txs (deploy 1)) \<longrightarrow>
      contribution_of (run txs (deploy 1)) w = 0)" for w
    by blast
  from e [of 9] have 3: "encryptedContributions (run txs (deploy 1)) 9 \<noteq> 0"
    by (simp add: u)
  from e [of 7] have 4: "encryptedContributions (run txs (deploy 1)) 7 = 0"
    and 5: "contribution_of (run txs (deploy 1)) 7 = 0"
    by (simp_all add: u)
  from t 3 have 6: "encryptedContributions (run (txs @ txs') (deploy 1)) 9 \<noteq> 0"
    by blast
  from t b have 7: "unat (contribution_of (run txs (deploy 1)) 9)
       \<le> unat (contribution_of (run (txs @ txs') (deploy 1)) 9)"
    by blast
  from 1 2 3 4 5 6 7 show ?thesis
    unfolding txs_def txs'_def by (intro conjI)
qed

section \<open>Capability grants\<close>







end
